theory Spec2Isabelle
  imports Complex_Main "HOL-Library.Word"
begin

section \<open>Configuration and protocol data\<close>

text \<open>
  The command-line flags of \<^verbatim>\<open>main.go\<close> (lines 16-23), read once by \<^verbatim>\<open>flag.Parse\<close>
  and never written afterwards. The flag \<^verbatim>\<open>output\<close> is the field \<open>output_dir\<close>.
\<close>

record config =
  domainlist :: string
  client :: string
  nameserver :: string
  threads :: int
  verbose :: bool
  output_dir :: string

text \<open>
  \<^verbatim>\<open>net.IP\<close> is a byte slice; \<open>None\<close> is the nil slice that a failed parse returns.
\<close>

type_synonym IP = "8 word list option"

text \<open>
  The structs of the DNS library that \<^verbatim>\<open>buildQuery\<close> and \<^verbatim>\<open>setupOptions\<close> fill in.
  Fields the program does not name keep Go's zero value. The name of a question is the
  field \<open>QName\<close>, since \<open>Name\<close> is the field of the resource-record header.
\<close>

record RR_Header =
  Name :: string
  Rrtype :: "16 word"
  Class :: "16 word"
  Ttl :: "32 word"
  Rdlength :: "16 word"

record EDNS0_SUBNET =
  Code :: "16 word"
  Family :: "16 word"
  SourceNetmask :: "8 word"
  SourceScope :: "8 word"
  Address :: IP

datatype EDNS0 = SUBNET EDNS0_SUBNET

record OPT =
  Hdr :: RR_Header
  Option :: "EDNS0 list"

datatype RR = OPT_RR OPT

record Question =
  QName :: string
  Qtype :: "16 word"
  Qclass :: "16 word"

record Msg =
  Id :: "16 word"
  Response :: bool
  Opcode :: int
  Authoritative :: bool
  Truncated :: bool
  RecursionDesired :: bool
  RecursionAvailable :: bool
  Zero :: bool
  AuthenticatedData :: bool
  CheckingDisabled :: bool
  Rcode :: int
  Compress :: bool
  Question :: "Question list"
  Answer :: "RR list"
  Ns :: "RR list"
  Extra :: "RR list"

text \<open>The protocol constants of the DNS library that the program names.\<close>

definition TypeA :: "16 word" where "TypeA = 1"
definition ClassINET :: "16 word" where "ClassINET = 1"
definition TypeOPT :: "16 word" where "TypeOPT = 41"
definition EDNS0SUBNET :: "16 word" where "EDNS0SUBNET = 8"
definition OpcodeQuery :: int where "OpcodeQuery = 0"
definition RcodeSuccess :: int where "RcodeSuccess = 0"
definition MinMsgSize :: "16 word" where "MinMsgSize = 512"

text \<open>
  The two library functions whose result depends on the text of a string are parameters of
  the model: \<^verbatim>\<open>net.ParseIP\<close> (nil when the text is no IP address, else the address as
  a byte slice) and \<^verbatim>\<open>dns.Fqdn\<close>.
\<close>

record netlib =
  ParseIP :: "string \<Rightarrow> IP"
  Fqdn :: "string \<Rightarrow> string"

text \<open>
  \<^verbatim>\<open>IP.To4\<close> of Go's standard library: a 4-byte slice is returned as it is, a 16-byte
  slice that is an IPv4-mapped address (ten zero bytes, then \<open>0xff 0xff\<close>) gives its last
  four bytes, and everything else, the nil slice included, gives nil.
\<close>

definition To4 :: "IP \<Rightarrow> IP" where
  "To4 ip =
     (case ip of
        None \<Rightarrow> None
      | Some bs \<Rightarrow>
          if length bs = 4 then Some bs
          else if length bs = 16 \<and> take 10 bs = replicate 10 0
                  \<and> bs ! 10 = 0xff \<and> bs ! 11 = 0xff
          then Some (drop 12 bs)
          else None)"

section \<open>Building a query\<close>

text \<open>\<^verbatim>\<open>setupOptions\<close> (lines 191-209).\<close>

definition setupOptions :: "netlib \<Rightarrow> config \<Rightarrow> OPT" where
  "setupOptions nl cfg =
     (let o_rr = \<lparr> Hdr = \<lparr> Name = ''.'', Rrtype = TypeOPT, Class = 0, Ttl = 0, Rdlength = 0 \<rparr>,
                   Option = [] \<rparr>;
          e = \<lparr> Code = EDNS0SUBNET,
                Family = 1,
                SourceNetmask = 0,
                SourceScope = 0,
                Address = To4 (ParseIP nl (client cfg)) \<rparr>
      in o_rr \<lparr> Option := Option o_rr @ [SUBNET e] \<rparr>)"

text \<open>\<^verbatim>\<open>buildQuery\<close> (lines 166-189).\<close>

definition buildQuery :: "netlib \<Rightarrow> config \<Rightarrow> 16 word \<Rightarrow> string \<Rightarrow> 16 word \<Rightarrow> 16 word \<Rightarrow> Msg" where
  "buildQuery nl cfg qid name qtype qclass =
     (let m = \<lparr> Id = qid, Response = False, Opcode = OpcodeQuery, Authoritative = False,
                Truncated = False, RecursionDesired = True, RecursionAvailable = False,
                Zero = False, AuthenticatedData = False, CheckingDisabled = False,
                Rcode = RcodeSuccess, Compress = False,
                Question = [\<lparr> QName = Fqdn nl name, Qtype = qtype, Qclass = qclass \<rparr>],
                Answer = [], Ns = [], Extra = [] \<rparr>
      in if client cfg \<noteq> ''''
         then m \<lparr> Extra := Extra m @ [OPT_RR (setupOptions nl cfg)] \<rparr>
         else m)"

text \<open>
  \<^verbatim>\<open>Msg.IsEdns0\<close> and \<^verbatim>\<open>OPT.UDPSize\<close> of the DNS library: the last record of the
  additional section whose type is OPT, and the class field of its header.
\<close>

definition rr_header :: "RR \<Rightarrow> RR_Header" where
  "rr_header r = (case r of OPT_RR opt \<Rightarrow> Hdr opt)"

definition IsEdns0 :: "Msg \<Rightarrow> OPT option" where
  "IsEdns0 m =
     (case filter (\<lambda>r. Rrtype (rr_header r) = TypeOPT) (rev (Extra m)) of
        [] \<Rightarrow> None
      | r # _ \<Rightarrow> (case r of OPT_RR opt \<Rightarrow> Some opt))"

definition UDPSize_of :: "OPT \<Rightarrow> 16 word" where
  "UDPSize_of opt = Class (Hdr opt)"

section \<open>Shared state of a run\<close>

text \<open>
  The program computes rates and elapsed seconds in \<^verbatim>\<open>float64\<close>. The model does not fix
  an arithmetic for it: the type of floating-point values is the parameter \<open>'f\<close>, and
  the operations the program applies are the fields of \<open>flib\<close>: the conversion
  \<^verbatim>\<open>float64(n)\<close> of an integer, \<^verbatim>\<open>Duration.Seconds\<close> of a duration in nanoseconds,
  the quotient, the sum and the constant \<open>0\<close>.
\<close>

record 'f flib =
  float64 :: "int \<Rightarrow> 'f"
  Seconds :: "int \<Rightarrow> 'f"
  fdiv :: "'f \<Rightarrow> 'f \<Rightarrow> 'f"
  fadd :: "'f \<Rightarrow> 'f \<Rightarrow> 'f"
  fzero :: "'f"

text \<open>What the program writes: standard output, the log, and the call of the graph package.\<close>

datatype 'f event =
    Banner string string int
  | LogPrintf string
  | ResponseDump string
  | RateLine 'f
  | BuildGraph string string bool "'f list" "'f list" int int string
  | FinalStatistics int int int 'f 'f

text \<open>
  The goroutines and the statement each one stands at.
  \<^item> The producer (lines 74-79): \<open>PLoop qs\<close> at the head of its loop with the names \<open>qs\<close>
    still to send, \<open>PSend q qs\<close> after \<^verbatim>\<open>stats.attempts++\<close>, at \<^verbatim>\<open>domains <- q\<close>.
  \<^item> A worker (\<^verbatim>\<open>makeRequest\<close>, lines 107-123): \<open>WRange\<close> at \<^verbatim>\<open>range domains\<close>,
    \<open>WWrite m\<close> at \<^verbatim>\<open>conn.WriteMsg(msg)\<close>, \<open>WSend\<close> at \<^verbatim>\<open>pipe <- conn\<close>, \<open>WClose\<close> at
    \<^verbatim>\<open>close(pipe)\<close>, \<open>WDone\<close> returned.
  \<^item> The sampler (\<^verbatim>\<open>updateStats\<close>, lines 125-140): \<open>SNotStarted\<close> when the goroutine was
    never started, \<open>SSelect\<close> at its \<^verbatim>\<open>select\<close>, \<open>SRate\<close> between the two appends,
    \<open>SReturned\<close>.
  \<^item> \<^verbatim>\<open>main\<close> (lines 85-105 and its deferred calls): \<open>MSelect i\<close> at the \<^verbatim>\<open>select\<close> of
    iteration \<open>i\<close>, \<open>MRead i\<close> at \<^verbatim>\<open>response.ReadMsg()\<close>, \<open>MSendDone i\<close> at
    \<^verbatim>\<open>done <- true\<close>, \<open>MFinalStats\<close> at the call of \<^verbatim>\<open>finalStats\<close>, \<open>MPrintf\<close> at the
    evaluation of the arguments of its \<^verbatim>\<open>Printf\<close>, \<open>MPrintf2\<close> with the four arguments read so
    far, before the last reading of the clock, then the four deferred calls in the order they run.
\<close>

datatype ppc = PLoop "string list" | PSend string "string list"

datatype wpc = WRange | WWrite Msg | WSend | WClose | WDone

datatype spc = SNotStarted | SSelect | SRate | SReturned

datatype 'f mpc =
    MSelect nat
  | MRead nat
  | MSendDone nat
  | MFinalStats
  | MPrintf
  | MPrintf2 int int int 'f
  | MDeferDone
  | MDeferPipe
  | MDeferDomains
  | MDeferConn

text \<open>
  The package-level variables (lines 25-44), the three channels, the shared connection
  and the position of every goroutine. \<open>now\<close> is \<^verbatim>\<open>time.Since(startTime)\<close> in nanoseconds.
  \<open>domains\<close> is the buffer of the channel of that name; \<open>pipe\<close> and \<open>done\<close> are
  unbuffered, so only whether they are closed is state. \<open>wire\<close> lists the messages
  written on the connection, \<open>out\<close> what the program printed or logged.
\<close>

record 'f state =
  attempts :: int
  success :: int
  fail :: int
  avgRate :: "'f"
  domainCount :: int
  rateValues :: "'f list"
  timeValues :: "'f list"
  now :: int
  domains :: "string list"
  domains_closed :: bool
  pipe_closed :: bool
  done_closed :: bool
  conn_UDPSize :: "16 word"
  conn_closed :: bool
  wire :: "Msg list"
  out :: "'f event list"
  prod :: ppc
  workers :: "wpc list"
  samp :: spc
  mainpc :: "'f mpc"

datatype panic = CloseOfClosedChannel | SendOnClosedChannel | NilDereference

datatype 'f outcome = Running "'f state" | Panicked panic "'f state" | Exited "'f state"

fun state_of :: "'f outcome \<Rightarrow> 'f state" where
  "state_of (Running s) = s"
| "state_of (Panicked p s) = s"
| "state_of (Exited s) = s"

text \<open>\<^verbatim>\<open>getStatAvg\<close> (lines 156-164): the value returned and the state it leaves.\<close>

definition getStatAvg :: "'f flib \<Rightarrow> 'f state \<Rightarrow> 'f \<times> 'f state" where
  "getStatAvg fl s =
     (let runTime = Seconds fl (now s);
          successCount = float64 fl (success s);
          successRate = fdiv fl successCount runTime
      in (successRate, s \<lparr> avgRate := fadd fl (avgRate s) successRate \<rparr>))"

section \<open>Start of a run\<close>

text \<open>
  \<^verbatim>\<open>checkFlags\<close> (lines 211-224) and \<^verbatim>\<open>getBanner\<close>: the only flag that is checked is
  the word list; the result is the banner that is printed.
\<close>

datatype abort = UsageExit | LogFatal string | MakeChanPanic

definition getBanner :: "config \<Rightarrow> 'f event" where
  "getBanner cfg = Banner (nameserver cfg) (client cfg) (threads cfg)"

definition checkFlags :: "config \<Rightarrow> abort + 'f event" where
  "checkFlags cfg = (if domainlist cfg = '''' then Inl UsageExit else Inr (getBanner cfg))"

text \<open>
  The for condition of the collector loop (line 85), with \<open>n\<close> the number of names.
\<close>

definition loop_head :: "nat \<Rightarrow> nat \<Rightarrow> 'f mpc" where
  "loop_head n i = (if i < n then MSelect i else MFinalStats)"

text \<open>
  Lines 47-83 of \<^verbatim>\<open>main\<close>. \<open>dial\<close> is the error of \<^verbatim>\<open>c.Dial\<close>, if any, and \<open>loaded\<close> the
  result of \<^verbatim>\<open>domain.GetDomains\<close>. A negative thread count makes \<^verbatim>\<open>make\<close> panic. The
  result is the state in which every goroutine stands at its first statement.
\<close>

definition start ::
  "'f flib \<Rightarrow> config \<Rightarrow> string option \<Rightarrow> string + string list \<Rightarrow> abort + 'f state" where
  "start fl cfg dial loaded =
     (case checkFlags cfg of
        Inl a \<Rightarrow> Inl a
      | Inr banner \<Rightarrow>
          if threads cfg < 0 then Inl MakeChanPanic
          else (case dial of
                  Some err \<Rightarrow> Inl (LogFatal err)
                | None \<Rightarrow>
                    (case loaded of
                       Inl err \<Rightarrow> Inl (LogFatal err)
                     | Inr qnames \<Rightarrow>
                         Inr \<lparr> attempts = 0, success = 0, fail = 0, avgRate = fzero fl,
                               domainCount = int (length qnames),
                               rateValues = [fzero fl], timeValues = [fzero fl],
                               now = 0,
                               domains = [], domains_closed = False,
                               pipe_closed = False, done_closed = False,
                               conn_UDPSize = 0, conn_closed = False,
                               wire = [], out = [banner],
                               prod = PLoop qnames,
                               workers = replicate (nat (threads cfg)) WRange,
                               samp = (if verbose cfg then SNotStarted else SSelect),
                               mainpc = loop_head (length qnames) 0 \<rparr>)))"

section \<open>The steps of the goroutines\<close>

text \<open>
  A run is an interleaving of steps of the goroutines. An action names the goroutine that
  moves and what the environment decided for it: the identifier \<^verbatim>\<open>dns.Id()\<close> drew, the
  result of a write or a read on the connection, the expiry of a ticker (the environment's
  event: the model does not tie it to the clock), the time that passed. A send and a receive
  on an unbuffered channel are one joint step of the two goroutines.

  Each step is one statement, or a few statements of one goroutine that touch no shared
  counter in between, and is taken as atomic: the program's unsynchronised accesses to the
  counters, the series and \<^verbatim>\<open>avgRate\<close> are interleaved statement by statement, and an
  increment is never torn or lost. Go's \<^verbatim>\<open>int\<close> is at least 32 bits wide; the counters count
  names held in memory and are unbounded integers here. The time that passed before the
  goroutines were started is a first \<open>Tick\<close>.
\<close>

datatype write_result = WriteOk | WriteErr string

datatype read_result = ReadOk string | ReadErr string

datatype action =
    ProdInc
  | ProdSend
  | Dequeue nat "16 word"
  | WorkerEnd nat
  | WriteMsg nat write_result
  | SendClosed nat
  | WorkerClose nat
  | MainRecv nat
  | MainRecvClosed
  | ReadMsg read_result
  | MainTimeout
  | DoneRecv
  | DoneRecvClosed
  | SampTick
  | SampRate
  | SampDefault
  | MainGraph
  | MainPrintArgs
  | MainPrint
  | MainCloseDone
  | MainClosePipe
  | MainCloseDomains
  | MainConnClose
  | Tick nat

text \<open>
  \<open>step\<close> is \<open>None\<close> when the action is not enabled in the state (the goroutine stands
  elsewhere, or blocks). Otherwise the program goes on, panics, or exits when \<^verbatim>\<open>main\<close>
  returns. A panic ends the run with the state in which it was raised: what the runtime still
  runs while the process dies is not part of the model.
  \<^item> \<open>ProdInc\<close>, \<open>ProdSend\<close>: lines 76 and 77; the send blocks while the buffer holds
    \<^verbatim>\<open>cap(domains)\<close> names and panics on a closed channel.
  \<^item> \<open>Dequeue w qid\<close>: worker \<open>w\<close> receives a name and runs lines 109-114.
    \<open>WorkerEnd w\<close>: its range loop ends, the channel being closed and drained.
  \<^item> \<open>WriteMsg w r\<close>: lines 116-119. \<open>MainRecv w\<close>: line 120 of worker \<open>w\<close> together with
    line 88 of \<^verbatim>\<open>main\<close>. \<open>SendClosed w\<close>: line 120 on a closed channel.
    \<open>WorkerClose w\<close>: line 122.
  \<^item> \<open>MainRecvClosed\<close>: line 88 on a closed channel yields nil, and line 89 calls a method
    that reads a field of the nil connection. \<open>ReadMsg r\<close>: lines 89-97 and the loop's
    \<^verbatim>\<open>i++\<close>. \<open>MainTimeout\<close>: lines 98-99. \<open>DoneRecv\<close>: line 100 together with line 130
    of the sampler, then line 101, which leaves the \<^verbatim>\<open>select\<close>, and the loop's \<^verbatim>\<open>i++\<close>.
  \<^item> \<open>DoneRecvClosed\<close>: line 130 on a closed channel. \<open>SampTick\<close>: line 133.
    \<open>SampRate\<close>: line 134. \<open>SampDefault\<close>: line 136.
  \<^item> \<open>MainGraph\<close>: lines 143-144. \<open>MainPrintArgs\<close>: the first four arguments of lines
    152-153. \<open>MainPrint\<close>: the last argument and the output. Then lines 61, 60, 59 and 58,
    in the order deferred calls run.
\<close>

fun step ::
  "netlib \<Rightarrow> 'f flib \<Rightarrow> config \<Rightarrow> string list \<Rightarrow> action \<Rightarrow> 'f state \<Rightarrow> 'f outcome option" where
  "step nl fl cfg qnames ProdInc s =
     (case prod s of
        PLoop (q # qs) \<Rightarrow> Some (Running (s \<lparr> attempts := attempts s + 1, prod := PSend q qs \<rparr>))
      | _ \<Rightarrow> None)"
| "step nl fl cfg qnames ProdSend s =
     (case prod s of
        PSend q qs \<Rightarrow>
          if domains_closed s then Some (Panicked SendOnClosedChannel s)
          else if length (domains s) < nat (threads cfg)
          then Some (Running (s \<lparr> domains := domains s @ [q], prod := PLoop qs \<rparr>))
          else None
      | _ \<Rightarrow> None)"
| "step nl fl cfg qnames (Dequeue w qid) s =
     (if w < length (workers s) \<and> workers s ! w = WRange
      then (case domains s of
              [] \<Rightarrow> None
            | d # ds \<Rightarrow>
                let msg = buildQuery nl cfg qid d TypeA ClassINET;
                    size = (case IsEdns0 msg of
                              None \<Rightarrow> conn_UDPSize s
                            | Some opt \<Rightarrow>
                                if UDPSize_of opt \<ge> MinMsgSize then UDPSize_of opt
                                else conn_UDPSize s)
                in Some (Running (s \<lparr> domains := ds, conn_UDPSize := size,
                                       workers := (workers s)[w := WWrite msg] \<rparr>)))
      else None)"
| "step nl fl cfg qnames (WorkerEnd w) s =
     (if w < length (workers s) \<and> workers s ! w = WRange \<and> domains s = [] \<and> domains_closed s
      then Some (Running (s \<lparr> workers := (workers s)[w := WClose] \<rparr>))
      else None)"
| "step nl fl cfg qnames (WriteMsg w r) s =
     (if w < length (workers s)
      then (case workers s ! w of
              WWrite msg \<Rightarrow>
                (case r of
                   WriteOk \<Rightarrow>
                     Some (Running (s \<lparr> wire := wire s @ [msg],
                                         workers := (workers s)[w := WSend] \<rparr>))
                 | WriteErr err \<Rightarrow>
                     Some (Running (s \<lparr> fail := fail s + 1, out := out s @ [LogPrintf err],
                                         workers := (workers s)[w := WSend] \<rparr>)))
            | _ \<Rightarrow> None)
      else None)"
| "step nl fl cfg qnames (SendClosed w) s =
     (if w < length (workers s) \<and> workers s ! w = WSend \<and> pipe_closed s
      then Some (Panicked SendOnClosedChannel s)
      else None)"
| "step nl fl cfg qnames (WorkerClose w) s =
     (if w < length (workers s) \<and> workers s ! w = WClose
      then (if pipe_closed s then Some (Panicked CloseOfClosedChannel s)
            else Some (Running (s \<lparr> pipe_closed := True, workers := (workers s)[w := WDone] \<rparr>)))
      else None)"
| "step nl fl cfg qnames (MainRecv w) s =
     (case mainpc s of
        MSelect i \<Rightarrow>
          if w < length (workers s) \<and> workers s ! w = WSend \<and> \<not> pipe_closed s
          then Some (Running (s \<lparr> workers := (workers s)[w := WRange], mainpc := MRead i \<rparr>))
          else None
      | _ \<Rightarrow> None)"
| "step nl fl cfg qnames MainRecvClosed s =
     (case mainpc s of
        MSelect i \<Rightarrow> if pipe_closed s then Some (Panicked NilDereference s) else None
      | _ \<Rightarrow> None)"
| "step nl fl cfg qnames (ReadMsg r) s =
     (case mainpc s of
        MRead i \<Rightarrow>
          (case r of
             ReadErr err \<Rightarrow>
               Some (Running (s \<lparr> fail := fail s + 1,
                                   mainpc := loop_head (length qnames) (i + 1) \<rparr>))
           | ReadOk txt \<Rightarrow>
               Some (Running (s \<lparr> success := success s + 1,
                                   out := (if verbose cfg then out s @ [ResponseDump txt] else out s),
                                   mainpc := loop_head (length qnames) (i + 1) \<rparr>)))
      | _ \<Rightarrow> None)"
| "step nl fl cfg qnames MainTimeout s =
     (case mainpc s of
        MSelect i \<Rightarrow>
          if pipe_closed s then Some (Panicked CloseOfClosedChannel s)
          else Some (Running (s \<lparr> pipe_closed := True, mainpc := MSendDone i \<rparr>))
      | _ \<Rightarrow> None)"
| "step nl fl cfg qnames DoneRecv s =
     (case mainpc s of
        MSendDone i \<Rightarrow>
          if samp s = SSelect \<and> \<not> done_closed s
          then Some (Running (s \<lparr> samp := SReturned,
                                   mainpc := loop_head (length qnames) (i + 1) \<rparr>))
          else None
      | _ \<Rightarrow> None)"
| "step nl fl cfg qnames DoneRecvClosed s =
     (if samp s = SSelect \<and> done_closed s
      then Some (Running (s \<lparr> samp := SReturned \<rparr>))
      else None)"
| "step nl fl cfg qnames SampTick s =
     (if samp s = SSelect
      then Some (Running (s \<lparr> timeValues := timeValues s @ [Seconds fl (now s)], samp := SRate \<rparr>))
      else None)"
| "step nl fl cfg qnames SampRate s =
     (if samp s = SRate
      then (case getStatAvg fl s of
              (r, s') \<Rightarrow> Some (Running (s' \<lparr> rateValues := rateValues s' @ [r], samp := SSelect \<rparr>)))
      else None)"
| "step nl fl cfg qnames SampDefault s =
     (if samp s = SSelect
      then (case getStatAvg fl s of
              (r, s') \<Rightarrow> Some (Running (s' \<lparr> out := out s' @ [RateLine r] \<rparr>)))
      else None)"
| "step nl fl cfg qnames MainGraph s =
     (case mainpc s of
        MFinalStats \<Rightarrow>
          Some (Running (s \<lparr> out := out s @ [BuildGraph (nameserver cfg) (client cfg)
                                                  (length (client cfg) \<noteq> 0)
                                                  (timeValues s) (rateValues s)
                                                  (threads cfg) (domainCount s) (output_dir cfg)],
                              mainpc := MPrintf \<rparr>))
      | _ \<Rightarrow> None)"
| "step nl fl cfg qnames MainPrintArgs s =
     (case mainpc s of
        MPrintf \<Rightarrow>
          (case getStatAvg fl s of
             (r, s') \<Rightarrow> Some (Running (s' \<lparr> mainpc := MPrintf2 (attempts s) (success s) (fail s) r \<rparr>)))
      | _ \<Rightarrow> None)"
| "step nl fl cfg qnames MainPrint s =
     (case mainpc s of
        MPrintf2 a su f r \<Rightarrow>
          Some (Running (s \<lparr> out := out s @ [FinalStatistics a su f r (Seconds fl (now s))],
                              mainpc := MDeferDone \<rparr>))
      | _ \<Rightarrow> None)"
| "step nl fl cfg qnames MainCloseDone s =
     (case mainpc s of
        MDeferDone \<Rightarrow>
          if done_closed s then Some (Panicked CloseOfClosedChannel s)
          else Some (Running (s \<lparr> done_closed := True, mainpc := MDeferPipe \<rparr>))
      | _ \<Rightarrow> None)"
| "step nl fl cfg qnames MainClosePipe s =
     (case mainpc s of
        MDeferPipe \<Rightarrow>
          if pipe_closed s then Some (Panicked CloseOfClosedChannel s)
          else Some (Running (s \<lparr> pipe_closed := True, mainpc := MDeferDomains \<rparr>))
      | _ \<Rightarrow> None)"
| "step nl fl cfg qnames MainCloseDomains s =
     (case mainpc s of
        MDeferDomains \<Rightarrow>
          if domains_closed s then Some (Panicked CloseOfClosedChannel s)
          else Some (Running (s \<lparr> domains_closed := True, mainpc := MDeferConn \<rparr>))
      | _ \<Rightarrow> None)"
| "step nl fl cfg qnames MainConnClose s =
     (case mainpc s of
        MDeferConn \<Rightarrow> Some (Exited (s \<lparr> conn_closed := True \<rparr>))
      | _ \<Rightarrow> None)"
| "step nl fl cfg qnames (Tick d) s = Some (Running (s \<lparr> now := now s + int d \<rparr>))"

text \<open>
  A schedule is a list of actions. \<open>run\<close> is \<open>None\<close> when the schedule is no run of the
  program from the state: an action is not enabled where it stands, or actions follow a
  panic or the exit.
\<close>

fun run ::
  "netlib \<Rightarrow> 'f flib \<Rightarrow> config \<Rightarrow> string list \<Rightarrow> action list \<Rightarrow> 'f state \<Rightarrow> 'f outcome option" where
  "run nl fl cfg qnames [] s = Some (Running s)"
| "run nl fl cfg qnames (a # as) s =
     (case step nl fl cfg qnames a s of
        None \<Rightarrow> None
      | Some (Running s') \<Rightarrow> run nl fl cfg qnames as s'
      | Some halted \<Rightarrow> (if as = [] then Some halted else None))"

text \<open>
  A whole execution: the start with the flags \<open>cfg\<close>, a connection that was established and
  the names \<open>qnames\<close> loaded, then the schedule.
\<close>

definition exec ::
  "netlib \<Rightarrow> 'f flib \<Rightarrow> config \<Rightarrow> string list \<Rightarrow> action list \<Rightarrow> 'f outcome option" where
  "exec nl fl cfg qnames sched =
     (case start fl cfg None (Inr qnames) of
        Inl a \<Rightarrow> None
      | Inr s0 \<Rightarrow> run nl fl cfg qnames sched s0)"

section \<open>Quantities of a schedule and of a state\<close>

text \<open>
  What the properties count in a schedule: the writes that failed and their errors, the reads
  that failed, and per worker the names it received, the writes it attempted and the signals
  it delivered on \<^verbatim>\<open>pipe\<close>.
\<close>

fun failed_write :: "action \<Rightarrow> bool" where
  "failed_write (WriteMsg w (WriteErr err)) = True"
| "failed_write _ = False"






definition count_of :: "(action \<Rightarrow> bool) \<Rightarrow> action list \<Rightarrow> int" where
  "count_of p sched = int (length (filter p sched))"


text \<open>
  Where a name is between \<^verbatim>\<open>stats.attempts++\<close> and the reading of its response: with the
  producer before its send (\<open>at_send\<close>), in the buffer, with a worker that has not yet
  delivered its signal (\<open>busy\<close>), or with \<^verbatim>\<open>main\<close> before the read returns (\<open>at_read\<close>).
\<close>

fun at_send :: "ppc \<Rightarrow> int" where
  "at_send (PSend q qs) = 1"
| "at_send (PLoop qs) = 0"

fun busy :: "wpc \<Rightarrow> int" where
  "busy (WWrite m) = 1"
| "busy WSend = 1"
| "busy _ = 0"



fun at_read :: "'f mpc \<Rightarrow> int" where
  "at_read (MRead i) = 1"
| "at_read _ = 0"

definition in_flight :: "'f state \<Rightarrow> int" where
  "in_flight s =
     at_send (prod s) + int (length (domains s)) + sum_list (map busy (workers s))
       + at_read (mainpc s)"

text \<open>Whether \<^verbatim>\<open>main\<close> is still in its loop (lines 85-103), and the iteration it is in.\<close>

fun in_loop :: "'f mpc \<Rightarrow> bool" where
  "in_loop (MSelect i) = True"
| "in_loop (MRead i) = True"
| "in_loop (MSendDone i) = True"
| "in_loop _ = False"

fun iteration :: "nat \<Rightarrow> 'f mpc \<Rightarrow> nat" where
  "iteration n (MSelect i) = i"
| "iteration n (MRead i) = i"
| "iteration n (MSendDone i) = i"
| "iteration n _ = n"


fun panic_of :: "'f outcome \<Rightarrow> panic option" where
  "panic_of (Panicked p s) = Some p"
| "panic_of _ = None"

text \<open>The struct \<^verbatim>\<open>stats\<close> at the end of an execution: attempts, success, fail.\<close>

definition stats_of :: "'f outcome \<Rightarrow> int \<times> int \<times> int" where
  "stats_of res = (attempts (state_of res), success (state_of res), fail (state_of res))"

text \<open>
  The producer's position and the counter it increments: the names not yet passed are a
  suffix of the list, and \<^verbatim>\<open>attempts\<close> is the number of names passed.
\<close>

definition producer_inv :: "string list \<Rightarrow> 'f state \<Rightarrow> bool" where
  "producer_inv qn s =
     (case prod s of
        PLoop qs \<Rightarrow> \<exists>pre. qn = pre @ qs \<and> attempts s = int (length pre)
      | PSend q qs \<Rightarrow> \<exists>pre. qn = pre @ q # qs \<and> attempts s = int (length pre) + 1)"

text \<open>
  What a schedule says of the clock and of the reads: the time that passed, the number of
  reads that succeeded, and from these the instants at which the sampler took line 133, the
  quotients it computed at line 134 and the quotients it displayed at line 136.
\<close>

fun elapsed :: "action list \<Rightarrow> int" where
  "elapsed [] = 0"
| "elapsed (Tick d # as) = int d + elapsed as"
| "elapsed (a # as) = elapsed as"

fun successes :: "action list \<Rightarrow> int" where
  "successes [] = 0"
| "successes (ReadMsg (ReadOk txt) # as) = 1 + successes as"
| "successes (a # as) = successes as"

fun sample_times :: "int \<Rightarrow> action list \<Rightarrow> int list" where
  "sample_times t [] = []"
| "sample_times t (Tick d # as) = sample_times (t + int d) as"
| "sample_times t (SampTick # as) = t # sample_times t as"
| "sample_times t (a # as) = sample_times t as"

fun sample_rates :: "'f flib \<Rightarrow> int \<Rightarrow> int \<Rightarrow> action list \<Rightarrow> 'f list" where
  "sample_rates fl t k [] = []"
| "sample_rates fl t k (Tick d # as) = sample_rates fl (t + int d) k as"
| "sample_rates fl t k (ReadMsg (ReadOk txt) # as) = sample_rates fl t (k + 1) as"
| "sample_rates fl t k (SampRate # as) =
     fdiv fl (float64 fl k) (Seconds fl t) # sample_rates fl t k as"
| "sample_rates fl t k (a # as) = sample_rates fl t k as"

fun display_rates :: "'f flib \<Rightarrow> int \<Rightarrow> int \<Rightarrow> action list \<Rightarrow> 'f list" where
  "display_rates fl t k [] = []"
| "display_rates fl t k (Tick d # as) = display_rates fl (t + int d) k as"
| "display_rates fl t k (ReadMsg (ReadOk txt) # as) = display_rates fl t (k + 1) as"
| "display_rates fl t k (SampDefault # as) =
     fdiv fl (float64 fl k) (Seconds fl t) # display_rates fl t k as"
| "display_rates fl t k (a # as) = display_rates fl t k as"

text \<open>The rates of the live display that the output holds, in order.\<close>

fun rate_lines :: "'f event list \<Rightarrow> 'f list" where
  "rate_lines [] = []"
| "rate_lines (RateLine r # es) = r # rate_lines es"
| "rate_lines (e # es) = rate_lines es"

text \<open>The two series the call of the graph package was handed, if it was called.\<close>

fun graph_series :: "'f event list \<Rightarrow> ('f list \<times> 'f list) option" where
  "graph_series [] = None"
| "graph_series (BuildGraph ns cl set_cl ts rs th n dir # es) = Some (ts, rs)"
| "graph_series (e # es) = graph_series es"





text \<open>
  A schedule in which one worker serves the names one after the other: the producer passes a
  name, worker 0 receives it, writes, signals, and \<^verbatim>\<open>main\<close> reads the response.
\<close>

definition serve_one :: "action list" where
  "serve_one =
     [ProdInc, ProdSend, Dequeue 0 0, WriteMsg 0 WriteOk, MainRecv 0, ReadMsg (ReadOk [])]"

fun serve_all :: "nat \<Rightarrow> action list" where
  "serve_all 0 = []"
| "serve_all (Suc n) = serve_one @ serve_all n"

section \<open>An environment for examples\<close>

text \<open>
  Examples are evaluated with exact rational arithmetic in place of \<^verbatim>\<open>float64\<close>, and with a
  parser that agrees with \<^verbatim>\<open>net.ParseIP\<close> on the three texts the examples use: a dotted
  IPv4 address (returned in its 16-byte form), an IPv6 address, and a text that is no address.
\<close>

definition exact_flib :: "rat flib" where
  "exact_flib =
     \<lparr> float64 = of_int, Seconds = (\<lambda>d. of_int d / 1000000000),
       fdiv = (/), fadd = (+), fzero = 0 \<rparr>"

definition example_ParseIP :: "string \<Rightarrow> IP" where
  "example_ParseIP s =
     (if s = ''192.0.2.1''
      then Some [0, 0, 0, 0, 0, 0, 0, 0, 0, 0, 0xff, 0xff, 192, 0, 2, 1]
      else if s = ''2001:db8::1''
      then Some [0x20, 0x01, 0x0d, 0xb8, 0, 0, 0, 0, 0, 0, 0, 0, 0, 0, 0, 1]
      else None)"

definition example_netlib :: netlib where
  "example_netlib = \<lparr> ParseIP = example_ParseIP, Fqdn = (\<lambda>s. s @ ''.'') \<rparr>"

definition example_config :: config where
  "example_config =
     \<lparr> domainlist = ''names.txt'', client = '''', nameserver = ''8.8.8.8'',
       threads = 1, verbose = False, output_dir = ''data'' \<rparr>"

section \<open>Runs\<close>

lemma run_snoc:
  "run nl fl cfg qn (sched @ [a]) s =
     (case run nl fl cfg qn sched s of
        Some (Running s') \<Rightarrow> step nl fl cfg qn a s'
      | _ \<Rightarrow> None)"
proof (induction sched arbitrary: s)
  case Nil
  show ?case by (simp split: option.splits outcome.splits)
next
  case (Cons b sched)
  show ?case
    by (cases "step nl fl cfg qn b s") (auto simp: Cons.IH split: outcome.splits)
qed

text \<open>
  Induction along an execution: a property of the schedule so far and the state holds after
  every execution when it holds at the start and every step keeps it.
\<close>

lemma exec_induct:
  assumes ex: "exec nl fl cfg qn sched = Some res"
    and base: "\<And>s0. start fl cfg None (Inr qn) = Inr s0 \<Longrightarrow> P [] s0"
    and stp: "\<And>pre s a res'. P pre s \<Longrightarrow> step nl fl cfg qn a s = Some res'
                 \<Longrightarrow> P (pre @ [a]) (state_of res')"
  shows "P sched (state_of res)"
  using ex
proof (induction sched arbitrary: res rule: rev_induct)
  case Nil
  then show ?case
    by (auto simp: exec_def intro: base split: sum.splits)
next
  case (snoc a pre)
  from snoc.prems obtain s0 where s0: "start fl cfg None (Inr qn) = Inr s0"
    and r: "run nl fl cfg qn (pre @ [a]) s0 = Some res"
    by (auto simp: exec_def split: sum.splits)
  from r obtain s where rs: "run nl fl cfg qn pre s0 = Some (Running s)"
    and st: "step nl fl cfg qn a s = Some res"
    by (auto simp: run_snoc split: option.splits outcome.splits)
  from rs s0 have "exec nl fl cfg qn pre = Some (Running s)"
    by (simp add: exec_def)
  from snoc.IH[OF this] have "P pre s" by simp
  from stp[OF this st] show ?case .
qed

lemma start_fields:
  assumes "start fl cfg None (Inr qn) = Inr s0"
  shows "attempts s0 = 0" "success s0 = 0" "fail s0 = 0" "domains s0 = []"
    "prod s0 = PLoop qn" "workers s0 = replicate (nat (threads cfg)) WRange"
    "samp s0 = (if verbose cfg then SNotStarted else SSelect)"
    "mainpc s0 = loop_head (length qn) 0"
    "rateValues s0 = [fzero fl]" "timeValues s0 = [fzero fl]" "now s0 = 0"
    "wire s0 = []" "out s0 = [getBanner cfg]"
    "\<not> pipe_closed s0" "\<not> domains_closed s0" "\<not> done_closed s0"
  using assms
  by (auto simp: start_def checkFlags_def split: if_splits)

text \<open>The definitions a concrete execution unfolds.\<close>

lemmas eval_defs =
  exec_def start_def checkFlags_def getBanner_def example_config_def example_netlib_def
  example_ParseIP_def exact_flib_def loop_head_def buildQuery_def setupOptions_def
  getStatAvg_def Let_def IsEdns0_def rr_header_def UDPSize_of_def To4_def

lemmas step_splits =
  ppc.splits list.splits if_splits wpc.splits write_result.splits read_result.splits
  mpc.splits prod.splits

lemma sum_list_map_update:
  fixes f :: "'a \<Rightarrow> int"
  shows "w < length xs \<Longrightarrow>
    sum_list (map f (xs[w := y])) = sum_list (map f xs) - f (xs ! w) + f y"
proof (induction xs arbitrary: w)
  case Nil
  then show ?case by simp
next
  case (Cons x xs)
  then show ?case by (cases w) auto
qed

lemma count_of_snoc: "count_of p (sched @ [a]) = count_of p sched + (if p a then 1 else 0)"
  by (simp add: count_of_def)

lemma count_of_Nil: "count_of p [] = 0"
  by (simp add: count_of_def)

section \<open>The counters\<close>

lemma step_producer_inv:
  assumes "step nl fl cfg qn a s = Some res" and "producer_inv qn s"
  shows "producer_inv qn (state_of res)"
proof (cases a)
  case ProdInc
  with assms show ?thesis
    by (auto simp: producer_inv_def split: ppc.splits list.splits)
next
  case ProdSend
  with assms show ?thesis
    by (auto simp: producer_inv_def split: ppc.splits list.splits if_splits)
qed (use assms in \<open>auto simp: producer_inv_def getStatAvg_def Let_def split: step_splits\<close>)

lemma exec_producer_inv:
  assumes "exec nl fl cfg qn sched = Some res"
  shows "producer_inv qn (state_of res)"
proof (rule exec_induct [OF assms, where P = "\<lambda>pre s. producer_inv qn s"])
  fix s0 :: "'a state"
  assume "start fl cfg None (Inr qn) = Inr s0"
  then show "producer_inv qn s0"
    by (simp add: producer_inv_def start_fields)
next
  fix pre s a res'
  assume "producer_inv qn s" and "step nl fl cfg qn a s = Some res'"
  then show "producer_inv qn (state_of res')"
    by (rule step_producer_inv [rotated])
qed

lemma producer_inv_le: "producer_inv qn s \<Longrightarrow> attempts s \<le> int (length qn)"
  by (auto simp: producer_inv_def split: ppc.splits)

lemma step_in_flight:
  assumes "step nl fl cfg qn a s = Some res"
  shows "success (state_of res) + fail (state_of res) + in_flight (state_of res)
           - attempts (state_of res)
         = success s + fail s + in_flight s - attempts s + (if failed_write a then 1 else 0)"
  using assms
  by (cases a)
     (auto simp: in_flight_def sum_list_map_update getStatAvg_def Let_def loop_head_def
           split: step_splits)

lemma busy_nonneg: "0 \<le> sum_list (map busy ws)"
proof (induction ws)
  case Nil
  show ?case by simp
next
  case (Cons x ws)
  then show ?case by (cases x) auto
qed

lemma in_flight_nonneg: "0 \<le> in_flight s"
proof -
  have "0 \<le> at_send (prod s)" by (cases "prod s") auto
  moreover have "0 \<le> at_read (mainpc s)" by (cases "mainpc s") auto
  ultimately show ?thesis
    using busy_nonneg [of "workers s"] by (simp add: in_flight_def)
qed

lemma exec_in_flight:
  assumes "exec nl fl cfg qn sched = Some res"
  shows "success (state_of res) + fail (state_of res) + in_flight (state_of res)
         = attempts (state_of res) + count_of failed_write sched"
proof -
  have "success (state_of res) + fail (state_of res) + in_flight (state_of res)
          - attempts (state_of res) = count_of failed_write sched"
  proof (rule exec_induct [OF assms,
        where P = "\<lambda>pre s. success s + fail s + in_flight s - attempts s
                              = count_of failed_write pre"])
    fix s0 :: "'a state"
    assume "start fl cfg None (Inr qn) = Inr s0"
    then show "success s0 + fail s0 + in_flight s0 - attempts s0 = count_of failed_write []"
      by (cases "length qn")
         (simp_all add: in_flight_def start_fields count_of_Nil loop_head_def sum_list_replicate)
  next
    fix pre s a res'
    assume "success s + fail s + in_flight s - attempts s = count_of failed_write pre"
      and "step nl fl cfg qn a s = Some res'"
    then show "success (state_of res') + fail (state_of res') + in_flight (state_of res')
                 - attempts (state_of res') = count_of failed_write (pre @ [a])"
      using step_in_flight [of nl fl cfg qn a s res'] by (simp add: count_of_snoc)
  qed
  then show ?thesis by simp
qed

lemma step_loop_ok:
  assumes "step nl fl cfg qn a s = Some res"
    and "in_loop (mainpc s) \<longrightarrow> iteration (length qn) (mainpc s) < length qn"
  shows "in_loop (mainpc (state_of res))
           \<longrightarrow> iteration (length qn) (mainpc (state_of res)) < length qn"
  using assms
  by (cases a) (auto simp: getStatAvg_def Let_def loop_head_def split: step_splits)

lemma step_drain:
  assumes "step nl fl cfg qn a s = Some res"
    and "in_loop (mainpc s) \<longrightarrow> iteration (length qn) (mainpc s) < length qn"
    and "a \<noteq> MainTimeout"
    and "\<forall>i. mainpc s \<noteq> MSendDone i"
  shows "(\<forall>i. mainpc (state_of res) \<noteq> MSendDone i) \<and>
     success (state_of res) + fail (state_of res)
         - int (iteration (length qn) (mainpc (state_of res)))
      = success s + fail s - int (iteration (length qn) (mainpc s))
         + (if failed_write a then 1 else 0)"
  using assms
  by (cases a) (auto simp: getStatAvg_def Let_def loop_head_def split: step_splits)

lemma exec_drain:
  assumes "exec nl fl cfg qn sched = Some res"
  shows "(in_loop (mainpc (state_of res))
            \<longrightarrow> iteration (length qn) (mainpc (state_of res)) < length qn) \<and>
         (MainTimeout \<notin> set sched \<longrightarrow>
            (\<forall>i. mainpc (state_of res) \<noteq> MSendDone i) \<and>
            success (state_of res) + fail (state_of res)
              = int (iteration (length qn) (mainpc (state_of res)))
                  + count_of failed_write sched)"
proof (rule exec_induct [OF assms,
      where P = "\<lambda>pre s. (in_loop (mainpc s) \<longrightarrow> iteration (length qn) (mainpc s) < length qn) \<and>
         (MainTimeout \<notin> set pre \<longrightarrow>
            (\<forall>i. mainpc s \<noteq> MSendDone i) \<and>
            success s + fail s
              = int (iteration (length qn) (mainpc s)) + count_of failed_write pre)"])
  fix s0 :: "'a state"
  assume "start fl cfg None (Inr qn) = Inr s0"
  then show "(in_loop (mainpc s0) \<longrightarrow> iteration (length qn) (mainpc s0) < length qn) \<and>
         (MainTimeout \<notin> set [] \<longrightarrow>
            (\<forall>i. mainpc s0 \<noteq> MSendDone i) \<and>
            success s0 + fail s0
              = int (iteration (length qn) (mainpc s0)) + count_of failed_write [])"
    by (simp add: start_fields loop_head_def count_of_Nil)
next
  fix pre s a res'
  assume inv: "(in_loop (mainpc s) \<longrightarrow> iteration (length qn) (mainpc s) < length qn) \<and>
         (MainTimeout \<notin> set pre \<longrightarrow>
            (\<forall>i. mainpc s \<noteq> MSendDone i) \<and>
            success s + fail s
              = int (iteration (length qn) (mainpc s)) + count_of failed_write pre)"
    and st: "step nl fl cfg qn a s = Some res'"
  from inv st have ok: "in_loop (mainpc (state_of res'))
           \<longrightarrow> iteration (length qn) (mainpc (state_of res')) < length qn"
    using step_loop_ok [of nl fl cfg qn a s res'] by blast
  have "(\<forall>i. mainpc (state_of res') \<noteq> MSendDone i) \<and>
            success (state_of res') + fail (state_of res')
              = int (iteration (length qn) (mainpc (state_of res')))
                  + count_of failed_write (pre @ [a])"
    if nt: "MainTimeout \<notin> set (pre @ [a])"
  proof -
    from nt have a: "a \<noteq> MainTimeout" and pre: "MainTimeout \<notin> set pre" by auto
    from inv pre have nd: "\<forall>i. mainpc s \<noteq> MSendDone i"
      and eq: "success s + fail s
                 = int (iteration (length qn) (mainpc s)) + count_of failed_write pre"
      by blast+
    from step_drain [OF st _ a nd] inv eq show ?thesis
      by (simp add: count_of_snoc)
  qed
  with ok show "(in_loop (mainpc (state_of res'))
            \<longrightarrow> iteration (length qn) (mainpc (state_of res')) < length qn) \<and>
         (MainTimeout \<notin> set (pre @ [a]) \<longrightarrow>
            (\<forall>i. mainpc (state_of res') \<noteq> MSendDone i) \<and>
            success (state_of res') + fail (state_of res')
              = int (iteration (length qn) (mainpc (state_of res')))
                  + count_of failed_write (pre @ [a]))"
    by blast
qed

lemma iteration_past_loop: "\<not> in_loop pc \<Longrightarrow> iteration n pc = n"
  by (cases pc) auto

lemma run_append_running:
  "run nl fl cfg qn xs s = Some (Running s') \<Longrightarrow>
   run nl fl cfg qn (xs @ ys) s = run nl fl cfg qn ys s'"
proof (induction xs arbitrary: s)
  case Nil
  then show ?case by simp
next
  case (Cons a xs)
  then show ?case
    by (cases "step nl fl cfg qn a s") (auto split: outcome.splits if_splits)
qed

lemma run_serve_one:
  assumes "prod s = PLoop (q # qs)" and "mainpc s = MSelect i"
    and "workers s \<noteq> []" and "workers s ! 0 = WRange"
    and "domains s = []" and "\<not> domains_closed s" and "\<not> pipe_closed s"
    and "0 < threads cfg"
  shows "\<exists>s'. run nl fl cfg qn serve_one s = Some (Running s')
              \<and> prod s' = PLoop qs \<and> mainpc s' = loop_head (length qn) (Suc i)
              \<and> workers s' \<noteq> [] \<and> workers s' ! 0 = WRange
              \<and> domains s' = [] \<and> \<not> domains_closed s' \<and> \<not> pipe_closed s'
              \<and> attempts s' = attempts s + 1"
proof -
  from assms have w: "0 < length (workers s)" by simp
  with assms show ?thesis
    by (simp add: serve_one_def Let_def)
qed

lemma run_serve_all:
  assumes "prod s = PLoop qs" and "mainpc s = loop_head (length qn) i"
    and "i + length qs = length qn"
    and "workers s \<noteq> []" and "workers s ! 0 = WRange"
    and "domains s = []" and "\<not> domains_closed s" and "\<not> pipe_closed s"
    and "0 < threads cfg"
  shows "\<exists>s'. run nl fl cfg qn (serve_all (length qs)) s = Some (Running s')
              \<and> prod s' = PLoop [] \<and> attempts s' = attempts s + int (length qs)"
  using assms
proof (induction qs arbitrary: s i)
  case Nil
  then show ?case by simp
next
  case (Cons q qs)
  from Cons.prems have "i < length qn" by simp
  with Cons.prems have pc: "mainpc s = MSelect i" by (simp add: loop_head_def)
  from run_serve_one [OF Cons.prems(1) pc Cons.prems(4-9), of nl fl qn]
  obtain s1 where r1: "run nl fl cfg qn serve_one s = Some (Running s1)"
    and p1: "prod s1 = PLoop qs" "mainpc s1 = loop_head (length qn) (Suc i)"
      "workers s1 \<noteq> []" "workers s1 ! 0 = WRange" "domains s1 = []"
      "\<not> domains_closed s1" "\<not> pipe_closed s1"
    and a1: "attempts s1 = attempts s + 1"
    by blast
  from Cons.prems have "Suc i + length qs = length qn" by simp
  from Cons.IH [OF p1(1,2) this p1(3-7) Cons.prems(9)]
  obtain s' where "run nl fl cfg qn (serve_all (length qs)) s1 = Some (Running s')"
    and "prod s' = PLoop []" and "attempts s' = attempts s1 + int (length qs)"
    by blast
  with run_append_running [OF r1, of "serve_all (length qs)"] a1 show ?case
    by simp
qed

lemma producer_can_finish:
  assumes "start fl cfg None (Inr qn) = Inr s0" and "0 < threads cfg"
  shows "\<exists>res. exec nl fl cfg qn (serve_all (length qn)) = Some res
              \<and> prod (state_of res) = PLoop []"
proof -
  from assms have "\<exists>s'. run nl fl cfg qn (serve_all (length qn)) s0 = Some (Running s')
              \<and> prod s' = PLoop [] \<and> attempts s' = attempts s0 + int (length qn)"
    by (intro run_serve_all [where i = 0]) (simp_all add: start_fields)
  with assms(1) show ?thesis
    by (auto simp: exec_def)
qed

text \<open>
  C5. In every execution, for every thread count and every list of names, \<^verbatim>\<open>attempts\<close> is
  the number of names the producer has passed line 76 for: the names still to send are a suffix
  of the list and each name before them added exactly one. Once the producer has enqueued all
  names, \<^verbatim>\<open>attempts\<close> equals their number. With at least one thread there is an execution in
  which the producer does enqueue all names.
\<close>

theorem attempts_counts_names:
  assumes "exec nl fl cfg qn sched = Some res"
  shows "(\<forall>qs. prod (state_of res) = PLoop qs \<longrightarrow>
            (\<exists>pre. qn = pre @ qs \<and> attempts (state_of res) = int (length pre))) \<and>
         (\<forall>q qs. prod (state_of res) = PSend q qs \<longrightarrow>
            (\<exists>pre. qn = pre @ q # qs \<and> attempts (state_of res) = int (length pre) + 1)) \<and>
         (prod (state_of res) = PLoop [] \<longrightarrow> attempts (state_of res) = int (length qn)) \<and>
         (0 < threads cfg \<longrightarrow>
            (\<exists>sched' res'. exec nl fl cfg qn sched' = Some res' \<and>
               prod (state_of res') = PLoop [] \<and>
               attempts (state_of res') = int (length qn)))"
proof -
  have inv: "attempts (state_of r) = int (length qn)"
    if "exec nl fl cfg qn sc = Some r" and "prod (state_of r) = PLoop []" for sc r
    using exec_producer_inv [OF that(1)] that(2) by (simp add: producer_inv_def)
  have can: "\<exists>sched' res'. exec nl fl cfg qn sched' = Some res' \<and>
               prod (state_of res') = PLoop [] \<and>
               attempts (state_of res') = int (length qn)"
    if t: "0 < threads cfg"
  proof -
    from assms obtain s0 where "start fl cfg None (Inr qn) = Inr s0"
      by (auto simp: exec_def split: sum.splits)
    from producer_can_finish [OF this t, of nl] inv show ?thesis by blast
  qed
  from exec_producer_inv [OF assms] can show ?thesis
    by (auto simp: producer_inv_def split: ppc.splits)
qed

theorem attempts_counts_names_witness:
  "\<exists>res. exec example_netlib exact_flib example_config [''a'', ''b'']
            [ProdInc, ProdSend, Dequeue 0 7, ProdInc, ProdSend] = Some res
         \<and> prod (state_of res) = PLoop [] \<and> attempts (state_of res) = 2"
proof -
  have "case exec example_netlib exact_flib example_config [''a'', ''b'']
            [ProdInc, ProdSend, Dequeue 0 7, ProdInc, ProdSend] of
          Some r \<Rightarrow> prod (state_of r) = PLoop [] | None \<Rightarrow> False"
    by code_simp
  then obtain res where ex: "exec example_netlib exact_flib example_config [''a'', ''b'']
            [ProdInc, ProdSend, Dequeue 0 7, ProdInc, ProdSend] = Some res"
    and p: "prod (state_of res) = PLoop []"
    by (auto split: option.splits)
  from attempts_counts_names [OF ex] p have "attempts (state_of res) = 2" by simp
  with ex p show ?thesis by blast
qed

text \<open>
  C2, as the code has it. A write that fails is counted in \<^verbatim>\<open>fail\<close> by the worker, and the
  signal the worker still sends makes \<^verbatim>\<open>main\<close> read and count for the same name again. So at
  every point of every execution \<^verbatim>\<open>success + fail\<close> is at most \<^verbatim>\<open>attempts\<close> plus the number
  of writes that failed so far; it is at most \<^verbatim>\<open>attempts\<close> when no write failed. Once \<^verbatim>\<open>main\<close>
  has left its loop with no timeout, \<^verbatim>\<open>attempts\<close> is the number of names and
  \<^verbatim>\<open>success + fail\<close> equals \<^verbatim>\<open>attempts\<close> plus the number of failed writes.
\<close>

theorem counters_balance:
  assumes "exec nl fl cfg qn sched = Some res"
  shows "success (state_of res) + fail (state_of res)
           \<le> attempts (state_of res) + count_of failed_write sched \<and>
         (count_of failed_write sched = 0 \<longrightarrow>
            success (state_of res) + fail (state_of res) \<le> attempts (state_of res)) \<and>
         (MainTimeout \<notin> set sched \<and> \<not> in_loop (mainpc (state_of res)) \<longrightarrow>
            attempts (state_of res) = int (length qn) \<and>
            success (state_of res) + fail (state_of res)
              = attempts (state_of res) + count_of failed_write sched)"
proof -
  let ?s = "state_of res"
  have bal: "success ?s + fail ?s + in_flight ?s = attempts ?s + count_of failed_write sched"
    by (rule exec_in_flight [OF assms])
  have le: "success ?s + fail ?s \<le> attempts ?s + count_of failed_write sched"
    using bal in_flight_nonneg [of ?s] by linarith
  have "attempts ?s = int (length qn) \<and>
        success ?s + fail ?s = attempts ?s + count_of failed_write sched"
    if nt: "MainTimeout \<notin> set sched" and past: "\<not> in_loop (mainpc ?s)"
  proof -
    from exec_drain [OF assms] nt
    have "success ?s + fail ?s
            = int (iteration (length qn) (mainpc ?s)) + count_of failed_write sched"
      by blast
    with past have all: "success ?s + fail ?s = int (length qn) + count_of failed_write sched"
      by (simp add: iteration_past_loop)
    have "attempts ?s \<le> int (length qn)"
      by (rule producer_inv_le [OF exec_producer_inv [OF assms]])
    with all le show ?thesis by linarith
  qed
  with le show ?thesis by auto
qed

theorem counters_balance_witness:
  "\<exists>res. exec example_netlib exact_flib example_config [''a'', ''b'']
            [ProdInc, ProdSend, Dequeue 0 7, WriteMsg 0 WriteOk, MainRecv 0,
             ReadMsg (ReadOk ''answer''), ProdInc, ProdSend, Dequeue 0 8,
             WriteMsg 0 (WriteErr ''refused''), MainRecv 0, ReadMsg (ReadErr ''refused'')]
            = Some res
         \<and> \<not> in_loop (mainpc (state_of res))
         \<and> stats_of res = (2, 1, 2)"
proof -
  let ?sched = "[ProdInc, ProdSend, Dequeue 0 7, WriteMsg 0 WriteOk, MainRecv 0,
             ReadMsg (ReadOk ''answer''), ProdInc, ProdSend, Dequeue 0 8,
             WriteMsg 0 (WriteErr ''refused''), MainRecv 0, ReadMsg (ReadErr ''refused'')]"
  have "case exec example_netlib exact_flib example_config [''a'', ''b''] ?sched of
          Some r \<Rightarrow> \<not> in_loop (mainpc (state_of r)) \<and> success (state_of r) = 1 \<and> fail (state_of r) = 2
        | None \<Rightarrow> False"
    by code_simp
  then obtain res where ex: "exec example_netlib exact_flib example_config [''a'', ''b''] ?sched = Some res"
    and p: "\<not> in_loop (mainpc (state_of res))" "success (state_of res) = 1" "fail (state_of res) = 2"
    by (auto split: option.splits)
  have nt: "MainTimeout \<notin> set ?sched" by simp
  from counters_balance [OF ex] nt p have "attempts (state_of res) = 2"
    by simp
  with ex p show ?thesis by (auto simp: stats_of_def)
qed

text \<open>
  One name, one worker: the write fails, the worker signals, and the read fails too. The
  counters end at \<^verbatim>\<open>attempts = 1\<close>, \<^verbatim>\<open>success = 0\<close>, \<^verbatim>\<open>fail = 2\<close>.
\<close>

theorem counters_counterexample:
  "map_option stats_of
     (exec example_netlib exact_flib example_config [''a'']
        [ProdInc, ProdSend, Dequeue 0 7, WriteMsg 0 (WriteErr ''refused''), MainRecv 0,
         ReadMsg (ReadErr ''refused'')])
   = Some (1, 0, 2)"
  by code_simp

section \<open>The workers\<close>



lemma step_workers_length:
  assumes "step nl fl cfg qn a s = Some res"
  shows "length (workers (state_of res)) = length (workers s)"
  using assms
  by (cases a) (auto simp: getStatAvg_def Let_def split: step_splits)

lemma exec_workers_length:
  assumes "exec nl fl cfg qn sched = Some res"
  shows "length (workers (state_of res)) = nat (threads cfg)"
proof (rule exec_induct [OF assms, where P = "\<lambda>pre s. length (workers s) = nat (threads cfg)"])
  fix s0 :: "'a state"
  assume "start fl cfg None (Inr qn) = Inr s0"
  then show "length (workers s0) = nat (threads cfg)"
    by (simp add: start_fields)
next
  fix pre s a res'
  assume "length (workers s) = nat (threads cfg)" and "step nl fl cfg qn a s = Some res'"
  then show "length (workers (state_of res')) = nat (threads cfg)"
    using step_workers_length [of nl fl cfg qn a s res'] by simp
qed










section \<open>The sampler\<close>

lemma elapsed_append: "elapsed (xs @ ys) = elapsed xs + elapsed ys"
  by (induction xs rule: elapsed.induct) auto

lemma elapsed_nonneg: "0 \<le> elapsed xs"
  by (induction xs rule: elapsed.induct) auto

lemma successes_append: "successes (xs @ ys) = successes xs + successes ys"
  by (induction xs rule: successes.induct) auto

lemma sample_times_append:
  "sample_times t (xs @ ys) = sample_times t xs @ sample_times (t + elapsed xs) ys"
  by (induction t xs rule: sample_times.induct) (auto simp: add.assoc)

lemma sample_rates_append:
  "sample_rates fl t k (xs @ ys)
     = sample_rates fl t k xs @ sample_rates fl (t + elapsed xs) (k + successes xs) ys"
  by (induction fl t k xs rule: sample_rates.induct) (auto simp: add.assoc)

lemma display_rates_append:
  "display_rates fl t k (xs @ ys)
     = display_rates fl t k xs @ display_rates fl (t + elapsed xs) (k + successes xs) ys"
  by (induction fl t k xs rule: display_rates.induct) (auto simp: add.assoc)

lemma rate_lines_append: "rate_lines (xs @ ys) = rate_lines xs @ rate_lines ys"
  by (induction xs rule: rate_lines.induct) auto

lemma sample_times_sorted:
  "sorted (sample_times t sched) \<and> (\<forall>x \<in> set (sample_times t sched). t \<le> x)"
  by (induction t sched rule: sample_times.induct) force+

lemma step_clock:
  assumes "step nl fl cfg qn a s = Some res"
  shows "now (state_of res) = now s + elapsed [a]"
    and "success (state_of res) = success s + successes [a]"
  using assms
  by (cases a; auto simp: getStatAvg_def Let_def split: step_splits)+

lemma step_series:
  assumes "step nl fl cfg qn a s = Some res"
  shows "timeValues (state_of res)
           = timeValues s @ map (Seconds fl) (sample_times (now s) [a])"
    and "rateValues (state_of res) = rateValues s @ sample_rates fl (now s) (success s) [a]"
    and "rate_lines (out (state_of res))
           = rate_lines (out s) @ display_rates fl (now s) (success s) [a]"
  using assms
  by (cases a; auto simp: getStatAvg_def Let_def rate_lines_append split: step_splits)+

lemma exec_series:
  assumes ex: "exec nl fl cfg qn sched = Some res"
  shows "now (state_of res) = elapsed sched"
    and "success (state_of res) = successes sched"
    and "timeValues (state_of res) = fzero fl # map (Seconds fl) (sample_times 0 sched)"
    and "rateValues (state_of res) = fzero fl # sample_rates fl 0 0 sched"
    and "rate_lines (out (state_of res)) = display_rates fl 0 0 sched"
proof -
  have "now (state_of res) = elapsed sched \<and>
        success (state_of res) = successes sched \<and>
        timeValues (state_of res) = fzero fl # map (Seconds fl) (sample_times 0 sched) \<and>
        rateValues (state_of res) = fzero fl # sample_rates fl 0 0 sched \<and>
        rate_lines (out (state_of res)) = display_rates fl 0 0 sched"
  proof (rule exec_induct [OF ex,
        where P = "\<lambda>pre s. now s = elapsed pre \<and> success s = successes pre \<and>
          timeValues s = fzero fl # map (Seconds fl) (sample_times 0 pre) \<and>
          rateValues s = fzero fl # sample_rates fl 0 0 pre \<and>
          rate_lines (out s) = display_rates fl 0 0 pre"])
    fix s0 :: "'a state"
    assume "start fl cfg None (Inr qn) = Inr s0"
    then show "now s0 = elapsed [] \<and> success s0 = successes [] \<and>
          timeValues s0 = fzero fl # map (Seconds fl) (sample_times 0 []) \<and>
          rateValues s0 = fzero fl # sample_rates fl 0 0 [] \<and>
          rate_lines (out s0) = display_rates fl 0 0 []"
      by (simp add: start_fields getBanner_def)
  next
    fix pre s a res'
    assume inv: "now s = elapsed pre \<and> success s = successes pre \<and>
          timeValues s = fzero fl # map (Seconds fl) (sample_times 0 pre) \<and>
          rateValues s = fzero fl # sample_rates fl 0 0 pre \<and>
          rate_lines (out s) = display_rates fl 0 0 pre"
      and st: "step nl fl cfg qn a s = Some res'"
    note c = step_clock [OF st] and r = step_series [OF st]
    from inv c r show "now (state_of res') = elapsed (pre @ [a]) \<and>
          success (state_of res') = successes (pre @ [a]) \<and>
          timeValues (state_of res') = fzero fl # map (Seconds fl) (sample_times 0 (pre @ [a])) \<and>
          rateValues (state_of res') = fzero fl # sample_rates fl 0 0 (pre @ [a]) \<and>
          rate_lines (out (state_of res')) = display_rates fl 0 0 (pre @ [a])"
      by (simp add: elapsed_append successes_append sample_times_append sample_rates_append
            display_rates_append)
  qed
  then show "now (state_of res) = elapsed sched"
    and "success (state_of res) = successes sched"
    and "timeValues (state_of res) = fzero fl # map (Seconds fl) (sample_times 0 sched)"
    and "rateValues (state_of res) = fzero fl # sample_rates fl 0 0 sched"
    and "rate_lines (out (state_of res)) = display_rates fl 0 0 sched"
    by blast+
qed


lemma step_series_lengths:
  assumes "step nl fl cfg qn a s = Some res"
    and "length (timeValues s) = length (rateValues s) + (if samp s = SRate then 1 else 0)"
  shows "length (timeValues (state_of res))
           = length (rateValues (state_of res)) + (if samp (state_of res) = SRate then 1 else 0)"
  using assms
  by (cases a) (auto simp: getStatAvg_def Let_def split: step_splits)








lemma exec_series_lengths:
  assumes ex: "exec nl fl cfg qn sched = Some res"
  shows "length (timeValues (state_of res))
           = length (rateValues (state_of res)) + (if samp (state_of res) = SRate then 1 else 0)"
proof (rule exec_induct [OF ex,
      where P = "\<lambda>pre s. length (timeValues s)
                   = length (rateValues s) + (if samp s = SRate then 1 else 0)"])
  fix s0 :: "'a state"
  assume "start fl cfg None (Inr qn) = Inr s0"
  then show "length (timeValues s0) = length (rateValues s0) + (if samp s0 = SRate then 1 else 0)"
    by (simp add: start_fields)
next
  fix pre s a res'
  assume "length (timeValues s) = length (rateValues s) + (if samp s = SRate then 1 else 0)"
    and "step nl fl cfg qn a s = Some res'"
  then show "length (timeValues (state_of res'))
               = length (rateValues (state_of res')) + (if samp (state_of res') = SRate then 1 else 0)"
    by (rule step_series_lengths [rotated])
qed

text \<open>
  C4, as the code has it. The sampler appends to the time series (line 133) and then to the
  rate series (line 134). At every point of every execution the two series have the same
  length, except while the sampler stands between the two appends, where the time series is
  longer by one. The time series is non-decreasing for the order \<open>le\<close> of the floating-point
  values, given that \<^verbatim>\<open>Seconds\<close> is monotone on durations that are not negative and never
  below \<open>0\<close> there (the clock of \<^verbatim>\<open>time.Since\<close> is monotonic).
\<close>

theorem series_parallel_sorted:
  assumes ex: "exec nl fl cfg qn sched = Some res"
    and mono: "\<forall>a b. 0 \<le> a \<and> a \<le> b \<longrightarrow> le (Seconds fl a) (Seconds fl b)"
    and zero: "\<forall>t. 0 \<le> t \<longrightarrow> le (fzero fl) (Seconds fl t)"
  shows "length (timeValues (state_of res))
           = length (rateValues (state_of res)) + (if samp (state_of res) = SRate then 1 else 0) \<and>
         sorted_wrt le (timeValues (state_of res))"
proof -
  let ?ts = "sample_times 0 sched"
  have s: "sorted ?ts" and pos: "\<forall>x \<in> set ?ts. 0 \<le> x"
    using sample_times_sorted [of 0 sched] by blast+
  from s have "sorted_wrt (\<lambda>x y. x \<le> y) ?ts" by simp
  then have "sorted_wrt (\<lambda>x y. le (Seconds fl x) (Seconds fl y)) ?ts"
    by (rule sorted_wrt_mono_rel [rotated]) (use mono pos in blast)
  then have "sorted_wrt le (map (Seconds fl) ?ts)"
    by (simp add: sorted_wrt_map)
  with zero pos have "sorted_wrt le (fzero fl # map (Seconds fl) ?ts)"
    by auto
  then show ?thesis
    using exec_series(3) [OF ex] exec_series_lengths [OF ex] by simp
qed

theorem series_parallel_sorted_witness:
  "\<exists>res. exec example_netlib exact_flib example_config [''a'']
            [Tick 500000000, SampTick, SampRate, Tick 500000000, SampTick] = Some res
         \<and> (\<forall>a b. 0 \<le> a \<and> a \<le> b \<longrightarrow> Seconds exact_flib a \<le> Seconds exact_flib b)
         \<and> (\<forall>t. 0 \<le> t \<longrightarrow> fzero exact_flib \<le> Seconds exact_flib t)
         \<and> samp (state_of res) = SRate
         \<and> length (timeValues (state_of res)) = 3
         \<and> length (rateValues (state_of res)) = 2
         \<and> sorted_wrt (\<le>) (timeValues (state_of res))"
proof -
  let ?sched = "[Tick 500000000, SampTick, SampRate, Tick 500000000, SampTick]"
  have "case exec example_netlib exact_flib example_config [''a''] ?sched of
          Some r \<Rightarrow> samp (state_of r) = SRate \<and> length (rateValues (state_of r)) = 2
        | None \<Rightarrow> False"
    by (simp add: eval_defs)
  then obtain res where
    ex: "exec example_netlib exact_flib example_config [''a''] ?sched = Some res"
    and p: "samp (state_of res) = SRate" "length (rateValues (state_of res)) = 2"
    by (auto split: option.splits)
  have mono: "\<forall>a b. 0 \<le> a \<and> a \<le> b \<longrightarrow> Seconds exact_flib a \<le> Seconds exact_flib b"
    by (simp add: exact_flib_def divide_right_mono)
  have zero: "\<forall>t. 0 \<le> t \<longrightarrow> fzero exact_flib \<le> Seconds exact_flib t"
    by (simp add: exact_flib_def)
  from series_parallel_sorted [OF ex mono zero] p
  have "length (timeValues (state_of res)) = 3"
    and "sorted_wrt (\<le>) (timeValues (state_of res))"
    by simp_all
  with ex mono zero p show ?thesis by blast
qed

text \<open>
  One name, answered after half a second, just when the sampler has appended the time and not
  yet the rate: \<^verbatim>\<open>main\<close> leaves its loop and hands the graph package a time series of two
  values and a rate series of one.
\<close>

theorem series_lengths_counterexample:
  "map_option (graph_series \<circ> out \<circ> state_of)
     (exec example_netlib exact_flib example_config [''a'']
        [ProdInc, ProdSend, Dequeue 0 7, WriteMsg 0 WriteOk, Tick 500000000, SampTick,
         MainRecv 0, ReadMsg (ReadOk ''answer''), MainGraph])
   = Some (Some ([0, 1 / 2], [0]))"
  by (simp add: eval_defs)

section \<open>The final report\<close>








section \<open>The client-subnet option\<close>





lemma To4_ipv4:
  "length bs = 4 \<or> length bs = 16 \<and> take 10 bs = replicate 10 0 \<and> bs ! 10 = 0xff \<and> bs ! 11 = 0xff
     \<Longrightarrow> To4 (Some bs) \<noteq> None"
  by (auto simp: To4_def)









section \<open>The timeout and the closing of the channels\<close>

lemma run_invariant:
  assumes "run nl fl cfg qn sched s = Some res" and "I s"
    and "\<And>a s res'. I s \<Longrightarrow> step nl fl cfg qn a s = Some res' \<Longrightarrow> I (state_of res')"
  shows "I (state_of res)"
  using assms(1,2)
proof (induction sched arbitrary: s)
  case Nil
  then show ?case by auto
next
  case (Cons a sched)
  show ?case
  proof (cases "step nl fl cfg qn a s")
    case None
    with Cons.prems show ?thesis by simp
  next
    case (Some r)
    from assms(3) [OF Cons.prems(2) Some] have i: "I (state_of r)" .
    show ?thesis
    proof (cases r)
      case (Running s')
      with Some Cons.prems have "run nl fl cfg qn sched s' = Some res" by simp
      from Cons.IH [OF this] i Running show ?thesis by simp
    next
      case (Panicked p s')
      with Some Cons.prems i show ?thesis by (auto split: if_splits)
    next
      case (Exited s')
      with Some Cons.prems i show ?thesis by (auto split: if_splits)
    qed
  qed
qed

lemma step_waiting_again:
  assumes "step nl fl cfg qn a s = Some res" and "Suc i < length qn"
    and "pipe_closed s \<and> (mainpc s = MSendDone i \<or> mainpc s = MSelect (Suc i))"
  shows "pipe_closed (state_of res) \<and>
         (mainpc (state_of res) = MSendDone i \<or> mainpc (state_of res) = MSelect (Suc i))"
  using assms
  by (cases a) (auto simp: getStatAvg_def Let_def loop_head_def split: step_splits)

text \<open>
  When the ticker case is taken in an iteration that is not the last, \<^verbatim>\<open>main\<close> never leaves
  its loop in any continuation: line 101 leaves the \<^verbatim>\<open>select\<close> only, so \<^verbatim>\<open>main\<close> is back at
  the \<^verbatim>\<open>select\<close> with \<^verbatim>\<open>pipe\<close> closed, where each of its two cases panics.
\<close>

lemma timeout_before_last_never_reports:
  assumes pc: "mainpc s = MSelect i" and i: "Suc i < length qn"
    and r: "run nl fl cfg qn (MainTimeout # post) s = Some res"
  shows "in_loop (mainpc (state_of res))"
proof (cases "pipe_closed s")
  case True
  with pc r show ?thesis by (auto split: if_splits)
next
  case False
  let ?s1 = "s \<lparr> pipe_closed := True, mainpc := MSendDone i \<rparr>"
  from False pc r have r1: "run nl fl cfg qn post ?s1 = Some res" by simp
  have "pipe_closed (state_of res) \<and>
         (mainpc (state_of res) = MSendDone i \<or> mainpc (state_of res) = MSelect (Suc i))"
  proof (rule run_invariant [OF r1,
        where I = "\<lambda>s. pipe_closed s \<and> (mainpc s = MSendDone i \<or> mainpc s = MSelect (Suc i))"])
    show "pipe_closed ?s1 \<and> (mainpc ?s1 = MSendDone i \<or> mainpc ?s1 = MSelect (Suc i))"
      by simp
  next
    fix a s res'
    assume "pipe_closed s \<and> (mainpc s = MSendDone i \<or> mainpc s = MSelect (Suc i))"
      and "step nl fl cfg qn a s = Some res'"
    then show "pipe_closed (state_of res') \<and>
         (mainpc (state_of res') = MSendDone i \<or> mainpc (state_of res') = MSelect (Suc i))"
      using step_waiting_again [of nl fl cfg qn a s res' i] i by blast
  qed
  then show ?thesis by auto
qed

text \<open>
  C1, on the code. Two names, and the ticker case is taken in the first iteration. After
  \<^verbatim>\<open>done <- true\<close> was received, \<^verbatim>\<open>main\<close> stands at the \<^verbatim>\<open>select\<close> of the second iteration and
  not at \<^verbatim>\<open>finalStats\<close>. From there the receive on the closed channel yields nil and the read
  on it panics, and a second expiry panics on closing the closed channel. With the verbose
  flag on there is no sampler to receive \<^verbatim>\<open>done <- true\<close>: the send is never taken.
\<close>

theorem timeout_is_not_terminal:
  "map_option (mainpc \<circ> state_of)
     (exec example_netlib exact_flib example_config [''a'', ''b''] [MainTimeout, DoneRecv])
     = Some (MSelect 1) \<and>
   map_option panic_of
     (exec example_netlib exact_flib example_config [''a'', ''b'']
        [MainTimeout, DoneRecv, MainRecvClosed])
     = Some (Some NilDereference) \<and>
   map_option panic_of
     (exec example_netlib exact_flib example_config [''a'', ''b'']
        [MainTimeout, DoneRecv, MainTimeout])
     = Some (Some CloseOfClosedChannel) \<and>
   exec example_netlib exact_flib (example_config \<lparr> verbose := True \<rparr>) [''a'']
     [MainTimeout, DoneRecv] = None"
  by (simp add: eval_defs)

lemma step_timeout_closed:
  assumes "step nl fl cfg qn a s = Some res"
    and "a = MainTimeout \<or>
         pipe_closed s \<and> mainpc s \<noteq> MDeferDomains \<and> mainpc s \<noteq> MDeferConn"
  shows "pipe_closed (state_of res) \<and> mainpc (state_of res) \<noteq> MDeferDomains
           \<and> mainpc (state_of res) \<noteq> MDeferConn"
  using assms
  by (cases a) (auto simp: getStatAvg_def Let_def loop_head_def split: step_splits)

lemma step_exited:
  assumes "step nl fl cfg qn a s = Some (Exited s')"
  shows "mainpc s' = MDeferConn"
  using assms
  by (cases a) (auto simp: getStatAvg_def Let_def split: step_splits)

text \<open>
  No execution in which the ticker case was taken returns from \<^verbatim>\<open>main\<close>: \<^verbatim>\<open>pipe\<close> stays
  closed, so the deferred \<^verbatim>\<open>close(pipe)\<close> cannot succeed.
\<close>

lemma timeout_never_returns:
  assumes ex: "exec nl fl cfg qn sched = Some res" and t: "MainTimeout \<in> set sched"
  shows "\<forall>s. res \<noteq> Exited s"
proof -
  have "(MainTimeout \<in> set sched \<longrightarrow>
           pipe_closed (state_of res) \<and> mainpc (state_of res) \<noteq> MDeferDomains
           \<and> mainpc (state_of res) \<noteq> MDeferConn) \<and>
        (\<forall>s. res = Exited s \<longrightarrow> mainpc s = MDeferConn)"
    using ex
  proof (induction sched arbitrary: res rule: rev_induct)
    case Nil
    then show ?case by (auto simp: exec_def split: sum.splits)
  next
    case (snoc a pre)
    from snoc.prems obtain s0 where s0: "start fl cfg None (Inr qn) = Inr s0"
      and r: "run nl fl cfg qn (pre @ [a]) s0 = Some res"
      by (auto simp: exec_def split: sum.splits)
    from r obtain s where rs: "run nl fl cfg qn pre s0 = Some (Running s)"
      and st: "step nl fl cfg qn a s = Some res"
      by (auto simp: run_snoc split: option.splits outcome.splits)
    from rs s0 have "exec nl fl cfg qn pre = Some (Running s)"
      by (simp add: exec_def)
    from snoc.IH [OF this]
    have ih: "MainTimeout \<in> set pre \<longrightarrow>
           pipe_closed s \<and> mainpc s \<noteq> MDeferDomains \<and> mainpc s \<noteq> MDeferConn"
      by simp
    have "pipe_closed (state_of res) \<and> mainpc (state_of res) \<noteq> MDeferDomains
           \<and> mainpc (state_of res) \<noteq> MDeferConn"
      if "MainTimeout \<in> set (pre @ [a])"
      using that ih step_timeout_closed [OF st] by auto
    moreover have "\<forall>s'. res = Exited s' \<longrightarrow> mainpc s' = MDeferConn"
      using st step_exited by blast
    ultimately show ?case by blast
  qed
  with t show ?thesis by auto
qed

text \<open>
  C8, on the code. One name and the ticker case taken in the only iteration: the loop ends,
  the report is printed, and the deferred \<^verbatim>\<open>close(pipe)\<close> panics, the channel having been
  closed at line 99. Two workers and no name, with no timeout: after the deferred
  \<^verbatim>\<open>close(domains)\<close> a worker leaves its range loop and its \<^verbatim>\<open>close(pipe)\<close> at line 122
  panics, the channel having been closed by the deferred call.
\<close>

theorem pipe_closed_twice:
  "map_option panic_of
     (exec example_netlib exact_flib example_config [''a'']
        [MainTimeout, DoneRecv, Tick 1000000000, MainGraph, MainPrintArgs, MainPrint,
         MainCloseDone, MainClosePipe])
     = Some (Some CloseOfClosedChannel) \<and>
   map_option panic_of
     (exec example_netlib exact_flib (example_config \<lparr> threads := 2 \<rparr>) []
        [Tick 1000000000, MainGraph, MainPrintArgs, MainPrint, MainCloseDone, MainClosePipe,
         MainCloseDomains, WorkerEnd 0, WorkerClose 0])
     = Some (Some CloseOfClosedChannel)"
  by (simp add: eval_defs)

end
